theory Spec2Isabelle
  imports Main "HOL-Library.Word" "HOL-Library.Monad_Syntax" "HOL-Library.Multiset"
begin

unbundle bit_operations_syntax

section \<open>The LRU cache of util/cache.cc\<close>

text \<open>
  The development follows \<^verbatim>\<open>src/util/cache.cc\<close>: the entry \<^verbatim>\<open>LRUHandle\<close>, the chained
  hash table \<^verbatim>\<open>HandleTable\<close>, one shard \<^verbatim>\<open>LRUCache\<close> and the router \<^verbatim>\<open>ShardedLRUCache\<close>.

  Machine integers keep their width: \<^verbatim>\<open>size_t\<close> and \<^verbatim>\<open>uint64_t\<close> are 64-bit words (an LP64
  target), \<^verbatim>\<open>uint32_t\<close> is a 32-bit word; \<open>+\<close>, \<open>-\<close> and \<open>*\<close> wrap around as in C.

  A result of type \<open>'a option\<close> is \<open>None\<close> when the C++ code has no defined result: it
  dereferences a freed entry, fails an \<^verbatim>\<open>assert\<close>, indexes an array out of bounds, or a loop
  does not terminate.

  A member \<^verbatim>\<open>x_\<close> of a C++ class is written \<open>x_m\<close> (a name cannot end in an underscore
  here), and the field \<^verbatim>\<open>value\<close> is written \<open>value'\<close>.
\<close>

type_synonym size_t = "64 word"
type_synonym uint32_t = "32 word"
type_synonym uint64_t = "64 word"

text \<open>
  An \<^verbatim>\<open>LRUHandle*\<close>. \<^verbatim>\<open>malloc\<close> hands out 0, 1, 2, ... and never hands out a pointer twice,
  so a pointer names one allocation for ever (the identity of an Entry).
\<close>

type_synonym ptr = nat

text \<open>
  \<^verbatim>\<open>struct LRUHandle\<close>. The fields \<^verbatim>\<open>value\<close> and \<^verbatim>\<open>deleter\<close> are opaque pointers, modelled as
  numbers; \<^verbatim>\<open>key_data\<close> with \<^verbatim>\<open>key_length\<close> is the key's byte string. The link fields
  \<^verbatim>\<open>next_hash\<close>, \<^verbatim>\<open>next\<close> and \<^verbatim>\<open>prev\<close> are represented by the lists they build: a bucket's chain
  (\<open>list_m\<close> below) and the ring (\<open>lru_m\<close> below).
\<close>

record LRUHandle =
  value' :: nat
  deleter :: nat
  charge :: size_t
  key_data :: string
  refs :: uint32_t
  hash :: uint32_t

text \<open>
  The C heap as far as the cache uses it: the allocated entries, the next pointer \<^verbatim>\<open>malloc\<close>
  returns, and the deleter invocations made so far, oldest first, each recorded as
  (entry, deleter, key, value).
\<close>

record mem =
  heap :: "ptr \<Rightarrow> LRUHandle option"
  brk :: ptr
  calls :: "(ptr \<times> nat \<times> string \<times> nat) list"

definition mem_empty :: mem where
  "mem_empty = \<lparr>heap = (\<lambda>_. None), brk = 0, calls = []\<rparr>"

subsection \<open>HandleTable\<close>

text \<open>
  \<^verbatim>\<open>class HandleTable\<close>: \<open>list_m ! i\<close> is the chain of bucket \<open>i\<close>, the entries reached from
  \<^verbatim>\<open>list_[i]\<close> through \<^verbatim>\<open>next_hash\<close>, in that order.
\<close>

record HandleTable =
  length_m :: uint32_t
  elems_m :: uint32_t
  list_m :: "ptr list list"

text \<open>
  The loop of \<^verbatim>\<open>FindPointer\<close> over one chain: the number of entries it steps over. The result
  is the position of the first entry with this hash and key, or the chain's length (the
  trailing slot) when there is none.
\<close>

fun chain_find :: "(ptr \<Rightarrow> LRUHandle option) \<Rightarrow> string \<Rightarrow> uint32_t \<Rightarrow> ptr list \<Rightarrow> nat option" where
  "chain_find hp key h [] = Some 0"
| "chain_find hp key h (p # ps) =
     (case hp p of
        None \<Rightarrow> None
      | Some e \<Rightarrow>
          if hash e \<noteq> h \<or> key \<noteq> key_data e
          then map_option Suc (chain_find hp key h ps)
          else Some 0)"

text \<open>\<^verbatim>\<open>FindPointer\<close>: the slot as (bucket, position in the bucket's chain).\<close>

definition FindPointer ::
    "(ptr \<Rightarrow> LRUHandle option) \<Rightarrow> HandleTable \<Rightarrow> string \<Rightarrow> uint32_t \<Rightarrow> (nat \<times> nat) option" where
  "FindPointer hp t key h =
     (let i = unat (h AND (length_m t - 1)) in
      if i < length (list_m t)
      then map_option (Pair i) (chain_find hp key h (list_m t ! i))
      else None)"

text \<open>Reading a slot, \<^verbatim>\<open>*ptr\<close>: \<open>None\<close> is \<^verbatim>\<open>NULL\<close>.\<close>

definition slot :: "HandleTable \<Rightarrow> nat \<times> nat \<Rightarrow> ptr option" where
  "slot t s =
     (let c = list_m t ! fst s in if snd s < length c then Some (c ! snd s) else None)"

definition HandleTable_Lookup ::
    "(ptr \<Rightarrow> LRUHandle option) \<Rightarrow> HandleTable \<Rightarrow> string \<Rightarrow> uint32_t \<Rightarrow> ptr option option" where
  "HandleTable_Lookup hp t key h = map_option (slot t) (FindPointer hp t key h)"

text \<open>
  \<^verbatim>\<open>Resize\<close>, first loop: \<^verbatim>\<open>while (new_length < elems_) new_length *= 2\<close> on 32-bit words.
  It does not terminate once \<^verbatim>\<open>new_length\<close> has wrapped to 0.
\<close>

partial_function (option) grow :: "uint32_t \<Rightarrow> uint32_t \<Rightarrow> uint32_t option" where
  "grow new_length elems =
     (if new_length < elems then grow (new_length * 2) elems else Some new_length)"

text \<open>\<^verbatim>\<open>Resize\<close>, inner loop: every entry of one old chain is pushed on the front of its new bucket.\<close>

fun rehash_chain ::
    "(ptr \<Rightarrow> LRUHandle option) \<Rightarrow> uint32_t \<Rightarrow> ptr list \<Rightarrow> ptr list list \<Rightarrow> ptr list list option" where
  "rehash_chain hp new_length [] new_list = Some new_list"
| "rehash_chain hp new_length (h # nxt) new_list =
     (case hp h of
        None \<Rightarrow> None
      | Some e \<Rightarrow>
          (let j = unat (hash e AND (new_length - 1)) in
           if j < length new_list
           then rehash_chain hp new_length nxt (new_list[j := h # new_list ! j])
           else None))"

text \<open>\<^verbatim>\<open>Resize\<close>, outer loop over the old buckets.\<close>

fun rehash ::
    "(ptr \<Rightarrow> LRUHandle option) \<Rightarrow> uint32_t \<Rightarrow> ptr list list \<Rightarrow> ptr list list \<Rightarrow> ptr list list option" where
  "rehash hp new_length [] new_list = Some new_list"
| "rehash hp new_length (c # cs) new_list =
     (case rehash_chain hp new_length c new_list of
        None \<Rightarrow> None
      | Some new_list' \<Rightarrow> rehash hp new_length cs new_list')"

definition Resize :: "(ptr \<Rightarrow> LRUHandle option) \<Rightarrow> HandleTable \<Rightarrow> HandleTable option" where
  "Resize hp t =
     (case grow 4 (elems_m t) of
        None \<Rightarrow> None
      | Some new_length \<Rightarrow>
          if length (list_m t) < unat (length_m t) then None
          else
            (let old = take (unat (length_m t)) (list_m t) in
             case rehash hp new_length old (replicate (unat new_length) []) of
               None \<Rightarrow> None
             | Some new_list \<Rightarrow>
                 \<comment> \<open>\<^verbatim>\<open>assert(elems_ == count)\<close>\<close>
                 if elems_m t = word_of_nat (length (concat old))
                 then Some \<lparr>length_m = new_length, elems_m = elems_m t, list_m = new_list\<rparr>
                 else None))"

text \<open>The constructor \<^verbatim>\<open>HandleTable()\<close>.\<close>

definition HandleTable_new :: "HandleTable option" where
  "HandleTable_new = Resize (\<lambda>_. None) \<lparr>length_m = 0, elems_m = 0, list_m = []\<rparr>"

text \<open>\<^verbatim>\<open>HandleTable::Insert\<close>: the displaced entry (or \<^verbatim>\<open>NULL\<close>) and the new table.\<close>

definition HandleTable_Insert ::
    "(ptr \<Rightarrow> LRUHandle option) \<Rightarrow> HandleTable \<Rightarrow> ptr \<Rightarrow> (ptr option \<times> HandleTable) option" where
  "HandleTable_Insert hp t h =
     (case hp h of
        None \<Rightarrow> None
      | Some e \<Rightarrow>
          (case FindPointer hp t (key_data e) (hash e) of
             None \<Rightarrow> None
           | Some p \<Rightarrow>
               (let old = slot t p;
                    c = list_m t ! fst p;
                    t1 = t\<lparr>list_m := (list_m t)[fst p := (if snd p < length c then c[snd p := h] else c @ [h])]\<rparr>
                in if old = None
                   then
                     (let t2 = t1\<lparr>elems_m := elems_m t1 + 1\<rparr>
                      in if elems_m t2 > length_m t2
                         then map_option (Pair old) (Resize hp t2)
                         else Some (old, t2))
                   else Some (old, t1))))"

text \<open>\<^verbatim>\<open>HandleTable::Remove\<close>: the removed entry (or \<^verbatim>\<open>NULL\<close>) and the new table.\<close>

definition HandleTable_Remove ::
    "(ptr \<Rightarrow> LRUHandle option) \<Rightarrow> HandleTable \<Rightarrow> string \<Rightarrow> uint32_t \<Rightarrow> (ptr option \<times> HandleTable) option" where
  "HandleTable_Remove hp t key h =
     (case FindPointer hp t key h of
        None \<Rightarrow> None
      | Some p \<Rightarrow>
          (case slot t p of
             None \<Rightarrow> Some (None, t)
           | Some r \<Rightarrow>
               (let c = list_m t ! fst p
                in Some (Some r,
                     t\<lparr>list_m := (list_m t)[fst p := take (snd p) c @ drop (Suc (snd p)) c],
                       elems_m := elems_m t - 1\<rparr>))))"

subsection \<open>LRUCache: one shard\<close>

text \<open>
  \<^verbatim>\<open>class LRUCache\<close>. \<open>lru_m\<close> is the ring read from \<^verbatim>\<open>lru_.next\<close> (the oldest entry, the head
  of the list) to \<^verbatim>\<open>lru_.prev\<close> (the newest, the last element). The mutex is not modelled:
  every operation holds it from start to end, so operations on one shard run one after
  another.
\<close>

record LRUCache =
  capacity_m :: size_t
  usage_m :: size_t
  lru_m :: "ptr list"
  table_m :: HandleTable

definition SetCapacity :: "size_t \<Rightarrow> LRUCache \<Rightarrow> LRUCache" where
  "SetCapacity capacity c = c\<lparr>capacity_m := capacity\<rparr>"

text \<open>The constructor \<^verbatim>\<open>LRUCache()\<close> followed by \<^verbatim>\<open>SetCapacity\<close>.\<close>

definition LRUCache_new :: "size_t \<Rightarrow> LRUCache option" where
  "LRUCache_new capacity =
     map_option (\<lambda>t. SetCapacity capacity \<lparr>capacity_m = 0, usage_m = 0, lru_m = [], table_m = t\<rparr>)
       HandleTable_new"

definition Unref :: "ptr \<Rightarrow> mem \<times> LRUCache \<Rightarrow> (mem \<times> LRUCache) option" where
  "Unref e s =
     (case heap (fst s) e of
        None \<Rightarrow> None
      | Some h \<Rightarrow>
          \<comment> \<open>\<^verbatim>\<open>assert(e->refs > 0)\<close>\<close>
          if \<not> refs h > 0 then None
          else
            (let h' = h\<lparr>refs := refs h - 1\<rparr>
             in if refs h' \<le> 0
                then Some ((fst s)\<lparr>heap := (heap (fst s))(e := None),
                                   calls := calls (fst s) @ [(e, deleter h', key_data h', value' h')]\<rparr>,
                           (snd s)\<lparr>usage_m := usage_m (snd s) - charge h'\<rparr>)
                else Some ((fst s)\<lparr>heap := (heap (fst s))(e \<mapsto> h')\<rparr>, snd s)))"

definition LRU_Remove :: "ptr \<Rightarrow> LRUCache \<Rightarrow> LRUCache" where
  "LRU_Remove e c = c\<lparr>lru_m := remove1 e (lru_m c)\<rparr>"

definition LRU_Append :: "ptr \<Rightarrow> LRUCache \<Rightarrow> LRUCache" where
  "LRU_Append e c = c\<lparr>lru_m := lru_m c @ [e]\<rparr>"

definition LRUCache_Lookup ::
    "string \<Rightarrow> uint32_t \<Rightarrow> mem \<times> LRUCache \<Rightarrow> (ptr option \<times> mem \<times> LRUCache) option" where
  "LRUCache_Lookup key h s =
     (case HandleTable_Lookup (heap (fst s)) (table_m (snd s)) key h of
        None \<Rightarrow> None
      | Some None \<Rightarrow> Some (None, s)
      | Some (Some e) \<Rightarrow>
          (case heap (fst s) e of
             None \<Rightarrow> None
           | Some x \<Rightarrow>
               Some (Some e,
                     (fst s)\<lparr>heap := (heap (fst s))(e \<mapsto> x\<lparr>refs := refs x + 1\<rparr>)\<rparr>,
                     LRU_Append e (LRU_Remove e (snd s)))))"

definition LRUCache_Release :: "ptr \<Rightarrow> mem \<times> LRUCache \<Rightarrow> (mem \<times> LRUCache) option" where
  "LRUCache_Release handle s = Unref handle s"

text \<open>
  The eviction loop of \<^verbatim>\<open>LRUCache::Insert\<close>:
  \<^verbatim>\<open>while (usage_ > capacity_ && lru_.next != &lru_)\<close>.
\<close>

function evict :: "mem \<times> LRUCache \<Rightarrow> (mem \<times> LRUCache) option" where
  "evict s =
     (if usage_m (snd s) > capacity_m (snd s) \<and> lru_m (snd s) \<noteq> []
      then
        (let old = hd (lru_m (snd s));
             c1 = LRU_Remove old (snd s)
         in case heap (fst s) old of
              None \<Rightarrow> None
            | Some x \<Rightarrow>
                (case HandleTable_Remove (heap (fst s)) (table_m c1) (key_data x) (hash x) of
                   None \<Rightarrow> None
                 | Some r \<Rightarrow>
                     (case Unref old (fst s, c1\<lparr>table_m := snd r\<rparr>) of
                        None \<Rightarrow> None
                      | Some s' \<Rightarrow> evict s')))
      else Some s)"
  by pat_completeness auto

lemma Unref_lru: "Unref e s = Some s' \<Longrightarrow> lru_m (snd s') = lru_m (snd s)"
  by (auto simp: Unref_def Let_def split: option.splits if_splits)

termination evict
proof (relation "measure (\<lambda>s. length (lru_m (snd s)))")
  show "wf (measure (\<lambda>s. length (lru_m (snd s))))" by simp
next
  fix s :: "mem \<times> LRUCache" and x xa x2 and x2a :: "ptr option \<times> HandleTable" and x2b
  assume a: "capacity_m (snd s) < usage_m (snd s) \<and> lru_m (snd s) \<noteq> []"
    and x: "x = hd (lru_m (snd s))" and xa: "xa = LRU_Remove x (snd s)"
    and u: "Unref x (fst s, xa\<lparr>table_m := snd x2a\<rparr>) = Some x2b"
  from Unref_lru [OF u] have "lru_m (snd x2b) = remove1 x (lru_m (snd s))"
    by (simp add: xa LRU_Remove_def)
  moreover from a x have "x \<in> set (lru_m (snd s))" by simp
  ultimately show "(x2b, s) \<in> measure (\<lambda>s. length (lru_m (snd s)))"
    using a by (simp add: length_remove1)
qed

definition LRUCache_Insert ::
    "string \<Rightarrow> uint32_t \<Rightarrow> nat \<Rightarrow> size_t \<Rightarrow> nat \<Rightarrow> mem \<times> LRUCache \<Rightarrow> (ptr \<times> mem \<times> LRUCache) option" where
  "LRUCache_Insert key h v chg del s =
     (let e = brk (fst s);
          m1 = (fst s)\<lparr>heap := (heap (fst s))(e \<mapsto>
                  \<lparr>value' = v, deleter = del, charge = chg, key_data = key, refs = 2, hash = h\<rparr>),
                brk := Suc e\<rparr>;
          c1 = LRU_Append e (snd s);
          c2 = c1\<lparr>usage_m := usage_m c1 + chg\<rparr>
      in case HandleTable_Insert (heap m1) (table_m c2) e of
           None \<Rightarrow> None
         | Some r \<Rightarrow>
             (case (case fst r of
                      None \<Rightarrow> Some (m1, c2\<lparr>table_m := snd r\<rparr>)
                    | Some old \<Rightarrow> Unref old (m1, LRU_Remove old (c2\<lparr>table_m := snd r\<rparr>))) of
                None \<Rightarrow> None
              | Some s3 \<Rightarrow> map_option (Pair e) (evict s3)))"

definition LRUCache_Erase :: "string \<Rightarrow> uint32_t \<Rightarrow> mem \<times> LRUCache \<Rightarrow> (mem \<times> LRUCache) option" where
  "LRUCache_Erase key h s =
     (case HandleTable_Remove (heap (fst s)) (table_m (snd s)) key h of
        None \<Rightarrow> None
      | Some r \<Rightarrow>
          (case fst r of
             None \<Rightarrow> Some (fst s, (snd s)\<lparr>table_m := snd r\<rparr>)
           | Some e \<Rightarrow> Unref e (fst s, LRU_Remove e ((snd s)\<lparr>table_m := snd r\<rparr>))))"

declare evict.simps [simp del]

subsection \<open>ShardedLRUCache\<close>

definition kNumShardBits :: nat where
  "kNumShardBits = 4"

definition kNumShards :: nat where
  "kNumShards = 2 ^ kNumShardBits"

record ShardedLRUCache =
  shard_m :: "LRUCache list"
  last_id_m :: uint64_t

text \<open>
  \<^verbatim>\<open>Hash\<close> of \<^verbatim>\<open>util/hash.h\<close> is not among the sources; it is a parameter \<open>Hash\<close> of every
  operation that hashes a key, applied to the key's bytes and the seed.
\<close>

definition HashSlice :: "(string \<Rightarrow> uint32_t \<Rightarrow> uint32_t) \<Rightarrow> string \<Rightarrow> uint32_t" where
  "HashSlice Hash s = Hash s 0"

definition Shard :: "uint32_t \<Rightarrow> uint32_t" where
  "Shard h = drop_bit (32 - kNumShardBits) h"

text \<open>
  The constructor \<^verbatim>\<open>ShardedLRUCache(capacity)\<close>, which is all that \<^verbatim>\<open>NewLRUCache\<close> calls:
  sixteen shards, each constructed and given the capacity \<^verbatim>\<open>per_shard\<close>.
\<close>

definition NewLRUCache :: "size_t \<Rightarrow> ShardedLRUCache option" where
  "NewLRUCache capacity =
     (let per_shard = (capacity + (word_of_nat kNumShards - 1)) div word_of_nat kNumShards
      in map_option (\<lambda>c. \<lparr>shard_m = replicate kNumShards c, last_id_m = 0\<rparr>)
           (LRUCache_new per_shard))"

text \<open>
  The operations of \<^verbatim>\<open>ShardedLRUCache\<close> on the heap and the cache. \<open>shard_m\<close> has
  \<open>kNumShards\<close> elements and \<open>Shard\<close> is below that, so the bounds check never fails on a
  cache that \<open>NewLRUCache\<close> built.
\<close>

definition ShardedLRUCache_Insert ::
    "(string \<Rightarrow> uint32_t \<Rightarrow> uint32_t) \<Rightarrow> string \<Rightarrow> nat \<Rightarrow> size_t \<Rightarrow> nat \<Rightarrow>
     mem \<times> ShardedLRUCache \<Rightarrow> (ptr \<times> mem \<times> ShardedLRUCache) option" where
  "ShardedLRUCache_Insert Hash key v chg del s =
     (let h = HashSlice Hash key; i = unat (Shard h)
      in if i < length (shard_m (snd s))
         then map_option
                (\<lambda>r. (fst r, fst (snd r), (snd s)\<lparr>shard_m := (shard_m (snd s))[i := snd (snd r)]\<rparr>))
                (LRUCache_Insert key h v chg del (fst s, shard_m (snd s) ! i))
         else None)"

definition ShardedLRUCache_Lookup ::
    "(string \<Rightarrow> uint32_t \<Rightarrow> uint32_t) \<Rightarrow> string \<Rightarrow>
     mem \<times> ShardedLRUCache \<Rightarrow> (ptr option \<times> mem \<times> ShardedLRUCache) option" where
  "ShardedLRUCache_Lookup Hash key s =
     (let h = HashSlice Hash key; i = unat (Shard h)
      in if i < length (shard_m (snd s))
         then map_option
                (\<lambda>r. (fst r, fst (snd r), (snd s)\<lparr>shard_m := (shard_m (snd s))[i := snd (snd r)]\<rparr>))
                (LRUCache_Lookup key h (fst s, shard_m (snd s) ! i))
         else None)"

definition ShardedLRUCache_Release ::
    "ptr \<Rightarrow> mem \<times> ShardedLRUCache \<Rightarrow> (mem \<times> ShardedLRUCache) option" where
  "ShardedLRUCache_Release handle s =
     (case heap (fst s) handle of
        None \<Rightarrow> None
      | Some x \<Rightarrow>
          (let i = unat (Shard (hash x))
           in if i < length (shard_m (snd s))
              then map_option
                     (\<lambda>r. (fst r, (snd s)\<lparr>shard_m := (shard_m (snd s))[i := snd r]\<rparr>))
                     (LRUCache_Release handle (fst s, shard_m (snd s) ! i))
              else None))"

definition ShardedLRUCache_Erase ::
    "(string \<Rightarrow> uint32_t \<Rightarrow> uint32_t) \<Rightarrow> string \<Rightarrow>
     mem \<times> ShardedLRUCache \<Rightarrow> (mem \<times> ShardedLRUCache) option" where
  "ShardedLRUCache_Erase Hash key s =
     (let h = HashSlice Hash key; i = unat (Shard h)
      in if i < length (shard_m (snd s))
         then map_option
                (\<lambda>r. (fst r, (snd s)\<lparr>shard_m := (shard_m (snd s))[i := snd r]\<rparr>))
                (LRUCache_Erase key h (fst s, shard_m (snd s) ! i))
         else None)"

text \<open>\<^verbatim>\<open>Value\<close> reads the entry behind the handle: undefined once the entry is freed.\<close>

definition Value :: "ptr \<Rightarrow> mem \<Rightarrow> nat option" where
  "Value handle m = map_option value' (heap m handle)"

text \<open>\<^verbatim>\<open>NewId\<close>: \<^verbatim>\<open>return ++(last_id_)\<close> on a 64-bit word.\<close>

definition NewId :: "ShardedLRUCache \<Rightarrow> uint64_t \<times> ShardedLRUCache" where
  "NewId c = (last_id_m c + 1, c\<lparr>last_id_m := last_id_m c + 1\<rparr>)"

text \<open>
  A run of calls of \<open>NewId\<close>. Other operations may have run between two calls; they change
  the shards only, so the run is given the shards each call meets.
\<close>

fun NewId_calls :: "LRUCache list list \<Rightarrow> ShardedLRUCache \<Rightarrow> uint64_t list" where
  "NewId_calls [] c = []"
| "NewId_calls (sh # shs) c =
     (let r = NewId (c\<lparr>shard_m := sh\<rparr>) in fst r # NewId_calls shs (snd r))"

section \<open>Construction\<close>

lemma grow_4_0: "grow 4 0 = Some 4"
  by (subst grow.simps) simp

lemma replicate_4: "replicate 4 x = [x, x, x, x]"
  by (simp add: numeral_eq_Suc)

lemma replicate_16: "replicate 16 x = [x, x, x, x, x, x, x, x, x, x, x, x, x, x, x, x]"
  by (simp add: numeral_eq_Suc)

lemma HandleTable_new_eq:
  "HandleTable_new = Some \<lparr>length_m = 4, elems_m = 0, list_m = [[], [], [], []]\<rparr>"
  by (simp add: HandleTable_new_def Resize_def grow_4_0 replicate_4)

lemma LRUCache_new_eq:
  "LRUCache_new capacity =
     Some \<lparr>capacity_m = capacity, usage_m = 0, lru_m = [],
           table_m = \<lparr>length_m = 4, elems_m = 0, list_m = [[], [], [], []]\<rparr>\<rparr>"
  by (simp add: LRUCache_new_def HandleTable_new_eq SetCapacity_def)

lemma NewLRUCache_eq:
  "NewLRUCache capacity =
     Some \<lparr>shard_m = replicate 16
             \<lparr>capacity_m = (capacity + 15) div 16, usage_m = 0, lru_m = [],
              table_m = \<lparr>length_m = 4, elems_m = 0, list_m = [[], [], [], []]\<rparr>\<rparr>,
           last_id_m = 0\<rparr>"
  by (simp add: NewLRUCache_def LRUCache_new_eq kNumShards_def kNumShardBits_def)

section \<open>NewId\<close>

lemma NewId_calls_eq:
  "NewId_calls shs c = map (\<lambda>i. last_id_m c + word_of_nat i) [1..<Suc (length shs)]"
proof (induction shs arbitrary: c)
  case Nil
  show ?case by simp
next
  case (Cons sh shs)
  have "[1..<Suc (Suc (length shs))] = 1 # map Suc [1..<Suc (length shs)]"
    by (metis One_nat_def map_Suc_upt upt_conv_Cons zero_less_Suc Suc_less_eq)
  then show ?case
    by (simp add: Cons.IH NewId_def Let_def comp_def add.assoc add.commute)
qed

lemma map_unat_upt:
  "n < 2 ^ 64 \<Longrightarrow> map (\<lambda>i. unat (word_of_nat i :: uint64_t)) [1..<Suc n] = [1..<Suc n]"
  by (rule map_idI) (auto simp: unat_of_nat)

text \<open>
  Claim C9, as the code has it. On a cache that \<open>NewLRUCache\<close> built, a run of fewer than
  \<open>2 ^ 64\<close> calls of \<open>NewId\<close> returns 1, 2, ..., N in this order (so the first call
  returns 1, every value is greater than all earlier ones and none is returned twice),
  whatever the shards hold at each call. The bound is needed: \<open>last_id_m\<close> is a 64-bit
  word.
\<close>

theorem NewId_contiguous:
  assumes "NewLRUCache capacity = Some c" and "length shs < 2 ^ 64"
  shows "map unat (NewId_calls shs c) = [1..<Suc (length shs)]"
proof -
  from assms(1) have "last_id_m c = 0"
    by (auto simp: NewLRUCache_eq)
  then show ?thesis
    using map_unat_upt [OF assms(2)] by (simp add: NewId_calls_eq comp_def)
qed

text \<open>Three calls on a cache of capacity 100, the shards changing in between.\<close>

theorem NewId_contiguous_witness:
  "map_option (\<lambda>c. map unat (NewId_calls [shard_m c, [], shard_m c] c)) (NewLRUCache 100)
     = Some [1, 2, 3]"
proof -
  obtain c where c: "NewLRUCache 100 = Some c"
    by (simp add: NewLRUCache_eq)
  have "length [shard_m c, [], shard_m c] < 2 ^ 64" by simp
  from NewId_contiguous [OF c this] show ?thesis
    by (simp add: c upt_rec)
qed

text \<open>
  Claim C9 as stated fails at the wrap-around: the last of \<open>2 ^ 64\<close> calls returns 0, which
  is not greater than the values returned before it.
\<close>

theorem NewId_wraps:
  "map_option (\<lambda>c. last (NewId_calls (replicate 18446744073709551616 (shard_m c)) c))
     (NewLRUCache 100) = Some 0"
proof -
  have "last (map (\<lambda>i. (0::uint64_t) + word_of_nat i) [1..<Suc 18446744073709551616])
          = 0 + word_of_nat 18446744073709551616"
    by (subst last_map) simp_all
  then show ?thesis
    by (simp add: NewLRUCache_eq NewId_calls_eq)
qed

section \<open>An empty shard\<close>

text \<open>
  A table with no entry: every bucket of \<^verbatim>\<open>list_\<close> is \<^verbatim>\<open>NULL\<close>. The table of a new shard is
  one, and so is a table whose entries have all been removed again.
\<close>

definition empty_table :: "HandleTable \<Rightarrow> bool" where
  "empty_table t \<longleftrightarrow>
     length_m t \<noteq> 0 \<and> elems_m t = 0 \<and> list_m t = replicate (unat (length_m t)) []"

lemma bucket_less: "L \<noteq> 0 \<Longrightarrow> unat (h AND (L - 1)) < unat (L :: uint32_t)"
proof -
  assume "L \<noteq> 0"
  then have "L - 1 < L"
    by (simp add: word_less_nat_alt unat_minus_one unat_gt_0)
  moreover have "h AND (L - 1) \<le> L - 1"
    by (rule word_and_le1)
  ultimately show ?thesis
    by (simp add: word_less_nat_alt word_le_nat_alt)
qed

lemma FindPointer_empty:
  "empty_table t \<Longrightarrow> FindPointer hp t key h = Some (unat (h AND (length_m t - 1)), 0)"
  by (simp add: empty_table_def FindPointer_def bucket_less)

lemma slot_empty:
  "empty_table t \<Longrightarrow> slot t (unat (h AND (length_m t - 1)), 0) = None"
  using bucket_less [of "length_m t" h] by (simp add: empty_table_def slot_def)

lemma HandleTable_Lookup_empty:
  "empty_table t \<Longrightarrow> HandleTable_Lookup hp t key h = Some None"
  by (simp add: HandleTable_Lookup_def FindPointer_empty slot_empty)

lemma one_not_greater: "L \<noteq> 0 \<Longrightarrow> \<not> L < (1 :: uint32_t)"
  by (simp add: word_less_1)

lemma HandleTable_Insert_empty:
  assumes "empty_table t" and "hp e = Some x"
  shows "HandleTable_Insert hp t e =
           Some (None, t\<lparr>list_m := (list_m t)[unat (hash x AND (length_m t - 1)) := [e]],
                         elems_m := 1\<rparr>)"
  using assms bucket_less [of "length_m t" "hash x"]
  by (simp add: HandleTable_Insert_def FindPointer_empty slot_empty Let_def one_not_greater)
     (simp add: empty_table_def)

lemma replicate_update_same: "(replicate n x)[i := x] = replicate n x"
  by (induction n arbitrary: i) (auto split: nat.split)

lemma HandleTable_Remove_single:
  assumes "empty_table t" and "hp e = Some x" and "key_data x = key" and "hash x = h"
  shows "HandleTable_Remove hp
           (t\<lparr>list_m := (list_m t)[unat (h AND (length_m t - 1)) := [e]], elems_m := 1\<rparr>) key h
         = Some (Some e, t)"
  using assms bucket_less [of "length_m t" h]
  by (cases t)
     (simp add: HandleTable_Remove_def FindPointer_def slot_def empty_table_def Let_def
        replicate_update_same)


lemma LRUCache_Insert_empty:
  assumes "lru_m c = []" and "empty_table (table_m c)" and "capacity_m c < usage_m c + chg"
  shows "LRUCache_Insert key h v chg del (m, c) =
           Some (brk m,
                 m\<lparr>heap := (heap m)(brk m \<mapsto>
                     \<lparr>value' = v, deleter = del, charge = chg, key_data = key, refs = 1, hash = h\<rparr>),
                   brk := Suc (brk m)\<rparr>,
                 c\<lparr>usage_m := usage_m c + chg\<rparr>)"
  using assms
  apply (simp add: LRUCache_Insert_def Let_def LRU_Append_def HandleTable_Insert_empty)
  apply (subst evict.simps)
  apply (simp add: LRU_Remove_def HandleTable_Remove_single Unref_def)
  apply (subst evict.simps)
  apply (cases c; cases m)
  apply simp
  done

lemma empty_table_new: "empty_table \<lparr>length_m = 4, elems_m = 0, list_m = [[], [], [], []]\<rparr>"
  by (simp add: empty_table_def replicate_4)

lemma LRUCache_Lookup_empty:
  "empty_table (table_m c) \<Longrightarrow> LRUCache_Lookup key h (m, c) = Some (None, m, c)"
  by (simp add: LRUCache_Lookup_def HandleTable_Lookup_empty)




section \<open>A cache whose shards are all empty\<close>

text \<open>Sixteen shards, each with an empty ring and an empty table.\<close>

definition all_empty :: "ShardedLRUCache \<Rightarrow> bool" where
  "all_empty sc \<longleftrightarrow>
     length (shard_m sc) = kNumShards \<and>
     list_all (\<lambda>c. lru_m c = [] \<and> empty_table (table_m c)) (shard_m sc)"

lemma Shard_less: "unat (Shard h) < kNumShards"
proof -
  have "unat h < 2 ^ 32"
    using unsigned_less [of h] by simp
  then have "unat h div 2 ^ 28 < 16"
    by simp
  then show ?thesis
    by (simp add: Shard_def kNumShards_def kNumShardBits_def drop_bit_eq_div unat_div)
qed

lemma all_empty_nth:
  "all_empty sc \<Longrightarrow> i < kNumShards \<Longrightarrow>
     lru_m (shard_m sc ! i) = [] \<and> empty_table (table_m (shard_m sc ! i))"
  by (simp add: all_empty_def list_all_length)

lemma all_empty_usage:
  "all_empty sc \<Longrightarrow>
     all_empty (sc\<lparr>shard_m := (shard_m sc)[i := (shard_m sc ! i)\<lparr>usage_m := u\<rparr>]\<rparr>)"
  by (cases "i < length (shard_m sc)") (auto simp: all_empty_def list_all_length nth_list_update)

lemma all_empty_NewLRUCache: "NewLRUCache capacity = Some c \<Longrightarrow> all_empty c"
  by (auto simp: NewLRUCache_eq all_empty_def kNumShards_def kNumShardBits_def empty_table_new
      list_all_length)

lemma Sharded_Insert_empty:
  assumes "all_empty (snd s)"
    and "capacity_m (shard_m (snd s) ! unat (Shard (HashSlice Hash key)))
           < usage_m (shard_m (snd s) ! unat (Shard (HashSlice Hash key))) + chg"
  shows "ShardedLRUCache_Insert Hash key v chg del s =
           Some (brk (fst s),
                 (fst s)\<lparr>heap := (heap (fst s))(brk (fst s) \<mapsto>
                     \<lparr>value' = v, deleter = del, charge = chg, key_data = key, refs = 1,
                        hash = HashSlice Hash key\<rparr>),
                   brk := Suc (brk (fst s))\<rparr>,
                 (snd s)\<lparr>shard_m := (shard_m (snd s))[unat (Shard (HashSlice Hash key)) :=
                     (shard_m (snd s) ! unat (Shard (HashSlice Hash key)))
                       \<lparr>usage_m := usage_m (shard_m (snd s) ! unat (Shard (HashSlice Hash key))) + chg\<rparr>]\<rparr>)"
  using assms all_empty_nth [OF assms(1) Shard_less, of "HashSlice Hash key"]
    Shard_less [of "HashSlice Hash key"]
  by (simp add: ShardedLRUCache_Insert_def Let_def LRUCache_Insert_empty all_empty_def)

lemma Sharded_Lookup_empty:
  assumes "all_empty (snd s)"
  shows "ShardedLRUCache_Lookup Hash key s = Some (None, s)"
  using assms all_empty_nth [OF assms(1) Shard_less, of "HashSlice Hash key"]
    Shard_less [of "HashSlice Hash key"]
  by (simp add: ShardedLRUCache_Lookup_def Let_def LRUCache_Lookup_empty all_empty_def)

lemma Sharded_Release_last:
  assumes "heap (fst s) e = Some x" and "refs x = 1" and "length (shard_m (snd s)) = kNumShards"
  shows "ShardedLRUCache_Release e s =
           Some ((fst s)\<lparr>heap := (heap (fst s))(e := None),
                        calls := calls (fst s) @ [(e, deleter x, key_data x, value' x)]\<rparr>,
                 (snd s)\<lparr>shard_m := (shard_m (snd s))[unat (Shard (hash x)) :=
                     (shard_m (snd s) ! unat (Shard (hash x)))
                       \<lparr>usage_m := usage_m (shard_m (snd s) ! unat (Shard (hash x))) - charge x\<rparr>]\<rparr>)"
  using assms Shard_less [of "hash x"]
  by (simp add: ShardedLRUCache_Release_def LRUCache_Release_def Unref_def Let_def)



text \<open>
  Claim C8, as the code has it. \<open>NewLRUCache 100\<close> gives each of the sixteen shards the
  capacity (100 + 15) / 16 = 7. An Entry of charge 60 exceeds it, so each of the two
  Entries is evicted by its own \<^verbatim>\<open>Insert\<close>, and afterwards \<^verbatim>\<open>Lookup\<close> finds neither
  \<^verbatim>\<open>"a"\<close> nor \<^verbatim>\<open>"b"\<close>. This holds for every hash function, for all values and deleters,
  and whether or not the handle of an \<^verbatim>\<open>Insert\<close> is released right after it
  (\<open>rel_a\<close>, \<open>rel_b\<close>).
\<close>

theorem capacity_100_both_evicted:
  "do { c \<leftarrow> NewLRUCache 100;
        (ha, s1) \<leftarrow> ShardedLRUCache_Insert Hash ''a'' va 60 da (mem_empty, c);
        s2 \<leftarrow> (if rel_a then ShardedLRUCache_Release ha s1 else Some s1);
        (hb, s3) \<leftarrow> ShardedLRUCache_Insert Hash ''b'' vb 60 db s2;
        s4 \<leftarrow> (if rel_b then ShardedLRUCache_Release hb s3 else Some s3);
        (ra, s5) \<leftarrow> ShardedLRUCache_Lookup Hash ''a'' s4;
        (rb, s6) \<leftarrow> ShardedLRUCache_Lookup Hash ''b'' s5;
        Some (ra, rb) }
   = Some (None, None)"
proof -
  obtain c where c: "NewLRUCache 100 = Some c" and ce: "all_empty c"
    and cap: "\<And>i. i < kNumShards \<Longrightarrow> capacity_m (shard_m c ! i) = 7 \<and> usage_m (shard_m c ! i) = 0"
    using all_empty_NewLRUCache [of 100] by (simp add: NewLRUCache_eq kNumShards_def kNumShardBits_def)
  define ia where "ia = unat (Shard (HashSlice Hash ''a''))"
  define ib where "ib = unat (Shard (HashSlice Hash ''b''))"
  have ia: "ia < kNumShards" and ib: "ib < kNumShards"
    by (simp_all add: ia_def ib_def Shard_less)
  have len: "length (shard_m c) = kNumShards"
    using ce by (simp add: all_empty_def)
  obtain s1 where s1: "ShardedLRUCache_Insert Hash ''a'' va 60 da (mem_empty, c) = Some (0, s1)"
    and e1: "all_empty (snd s1)"
    and h1: "heap (fst s1) 0 = Some \<lparr>value' = va, deleter = da, charge = 60, key_data = ''a'', refs = 1, hash = HashSlice Hash ''a''\<rparr>"
    and b1: "brk (fst s1) = 1"
    and u1: "\<And>i. i < kNumShards \<Longrightarrow> capacity_m (shard_m (snd s1) ! i) = 7 \<and>
                 usage_m (shard_m (snd s1) ! i) = (if i = ia then 60 else 0)"
    using cap ia ce len
    by (simp add: Sharded_Insert_empty mem_empty_def all_empty_usage nth_list_update flip: ia_def)
  obtain s2 where s2: "(if rel_a then ShardedLRUCache_Release 0 s1 else Some s1) = Some s2"
    and e2: "all_empty (snd s2)"
    and b2: "brk (fst s2) = 1"
    and u2: "\<And>i. i < kNumShards \<Longrightarrow> capacity_m (shard_m (snd s2) ! i) = 7 \<and>
                 (usage_m (shard_m (snd s2) ! i) = 60 \<or> usage_m (shard_m (snd s2) ! i) = 0)"
    using e1 h1 b1 u1 ia
    by (cases rel_a)
       (auto simp add: Sharded_Release_last all_empty_def [of "snd s1"] all_empty_usage nth_list_update
          simp flip: ia_def)
  have "capacity_m (shard_m (snd s2) ! ib) < usage_m (shard_m (snd s2) ! ib) + 60"
    using u2 [OF ib] by auto
  then obtain s3 where s3: "ShardedLRUCache_Insert Hash ''b'' vb 60 db s2 = Some (1, s3)"
    and e3: "all_empty (snd s3)"
    and h3: "heap (fst s3) 1 = Some \<lparr>value' = vb, deleter = db, charge = 60, key_data = ''b'', refs = 1, hash = HashSlice Hash ''b''\<rparr>"
    using e2 b2 by (simp add: Sharded_Insert_empty all_empty_usage flip: ib_def)
  obtain s4 where s4: "(if rel_b then ShardedLRUCache_Release 1 s3 else Some s3) = Some s4"
    and e4: "all_empty (snd s4)"
    using e3 h3
    by (cases rel_b) (auto simp add: Sharded_Release_last all_empty_def [of "snd s3"] all_empty_usage)
  show ?thesis
    using s2 s4
    by (cases rel_a; cases rel_b) (simp_all add: c s1 s3 Sharded_Lookup_empty [OF e4])
qed


text \<open>
  Claim C8 as stated fails: \<^verbatim>\<open>Lookup("b")\<close> returns no handle. The hash function here maps
  every key to 0; the theorem above covers every other one.
\<close>

lemma Shard_0: "unat (Shard 0) = 0"
  by (simp add: Shard_def)

theorem capacity_100_b_not_found:
  "do { c \<leftarrow> NewLRUCache 100;
        (ha, s1) \<leftarrow> ShardedLRUCache_Insert (\<lambda>s seed. 0) ''a'' 11 60 0 (mem_empty, c);
        (hb, s2) \<leftarrow> ShardedLRUCache_Insert (\<lambda>s seed. 0) ''b'' 22 60 0 s1;
        (rb, s3) \<leftarrow> ShardedLRUCache_Lookup (\<lambda>s seed. 0) ''b'' s2;
        Some rb }
   = Some None"
proof -
  obtain c where c: "NewLRUCache 100 = Some c" and ce: "all_empty c"
    and cap: "capacity_m (shard_m c ! 0) = 7 \<and> usage_m (shard_m c ! 0) = 0"
    using all_empty_NewLRUCache [of 100] by (simp add: NewLRUCache_eq replicate_16)
  have len: "length (shard_m c) = kNumShards"
    using ce by (simp add: all_empty_def)
  obtain s1 where s1: "ShardedLRUCache_Insert (\<lambda>s seed. 0) ''a'' 11 60 0 (mem_empty, c) = Some (0, s1)"
    and e1: "all_empty (snd s1)"
    and u1: "capacity_m (shard_m (snd s1) ! 0) = 7 \<and> usage_m (shard_m (snd s1) ! 0) = 60"
    using cap ce len
    by (simp add: Sharded_Insert_empty mem_empty_def all_empty_usage HashSlice_def Shard_0
          kNumShards_def kNumShardBits_def)
  obtain h s2 where s2: "ShardedLRUCache_Insert (\<lambda>s seed. 0) ''b'' 22 60 0 s1 = Some (h, s2)"
    and e2: "all_empty (snd s2)"
    using e1 u1 by (simp add: Sharded_Insert_empty all_empty_usage HashSlice_def Shard_0)
  show ?thesis
    by (simp add: c s1 s2 Sharded_Lookup_empty [OF e2])
qed


subsection \<open>Total capacity 0\<close>

text \<open>
  The states of a cache built by \<open>NewLRUCache 0\<close> after any public operations, none of
  whose \<^verbatim>\<open>Insert\<close>s brought the 64-bit counter \<^verbatim>\<open>usage_\<close> of its shard back to 0.
\<close>

definition zero_cache :: "ShardedLRUCache \<Rightarrow> bool" where
  "zero_cache sc \<longleftrightarrow> all_empty sc \<and> list_all (\<lambda>c. capacity_m c = 0) (shard_m sc)"

inductive reach0 :: "(string \<Rightarrow> uint32_t \<Rightarrow> uint32_t) \<Rightarrow> mem \<times> ShardedLRUCache \<Rightarrow> bool"
  for Hash :: "string \<Rightarrow> uint32_t \<Rightarrow> uint32_t" where
  reach0_new: "NewLRUCache 0 = Some c \<Longrightarrow> reach0 Hash (mem_empty, c)"
| reach0_Insert:
    "reach0 Hash s \<Longrightarrow>
     usage_m (shard_m (snd s) ! unat (Shard (HashSlice Hash key))) + chg \<noteq> 0 \<Longrightarrow>
     ShardedLRUCache_Insert Hash key v chg del s = Some (e, s') \<Longrightarrow> reach0 Hash s'"
| reach0_Lookup:
    "reach0 Hash s \<Longrightarrow> ShardedLRUCache_Lookup Hash key s = Some (r, s') \<Longrightarrow> reach0 Hash s'"
| reach0_Release:
    "reach0 Hash s \<Longrightarrow> ShardedLRUCache_Release handle s = Some s' \<Longrightarrow> reach0 Hash s'"
| reach0_Erase:
    "reach0 Hash s \<Longrightarrow> ShardedLRUCache_Erase Hash key s = Some s' \<Longrightarrow> reach0 Hash s'"
| reach0_NewId:
    "reach0 Hash s \<Longrightarrow> reach0 Hash (fst s, snd (NewId (snd s)))"

lemma zero_cache_new: "NewLRUCache 0 = Some c \<Longrightarrow> zero_cache c"
  using all_empty_NewLRUCache [of 0 c]
  by (auto simp: zero_cache_def NewLRUCache_eq list_all_length)

lemma zero_cache_usage:
  "zero_cache sc \<Longrightarrow>
     zero_cache (sc\<lparr>shard_m := (shard_m sc)[i := (shard_m sc ! i)\<lparr>usage_m := u\<rparr>]\<rparr>)"
  using all_empty_usage [of sc i u]
  by (cases "i < length (shard_m sc)") (auto simp: zero_cache_def list_all_length nth_list_update)

lemma zero_cache_capacity:
  "zero_cache sc \<Longrightarrow> capacity_m (shard_m sc ! unat (Shard h)) = 0"
  using Shard_less [of h] by (simp add: zero_cache_def all_empty_def list_all_length)

lemma zero_cache_Insert:
  assumes "zero_cache (snd s)"
    and "usage_m (shard_m (snd s) ! unat (Shard (HashSlice Hash key))) + chg \<noteq> 0"
  shows "ShardedLRUCache_Insert Hash key v chg del s =
           Some (brk (fst s),
                 (fst s)\<lparr>heap := (heap (fst s))(brk (fst s) \<mapsto>
                     \<lparr>value' = v, deleter = del, charge = chg, key_data = key, refs = 1,
                        hash = HashSlice Hash key\<rparr>),
                   brk := Suc (brk (fst s))\<rparr>,
                 (snd s)\<lparr>shard_m := (shard_m (snd s))[unat (Shard (HashSlice Hash key)) :=
                     (shard_m (snd s) ! unat (Shard (HashSlice Hash key)))
                       \<lparr>usage_m := usage_m (shard_m (snd s) ! unat (Shard (HashSlice Hash key))) + chg\<rparr>]\<rparr>)"
proof (rule Sharded_Insert_empty)
  show "all_empty (snd s)"
    using assms(1) by (simp add: zero_cache_def)
  show "capacity_m (shard_m (snd s) ! unat (Shard (HashSlice Hash key)))
          < usage_m (shard_m (snd s) ! unat (Shard (HashSlice Hash key))) + chg"
    using assms(2) by (simp add: zero_cache_capacity [OF assms(1)] word_greater_zero_iff)
qed

lemma zero_cache_Release:
  assumes "zero_cache (snd s)" and "ShardedLRUCache_Release handle s = Some s'"
  shows "zero_cache (snd s')"
  using assms zero_cache_usage [of "snd s"]
  by (auto simp: ShardedLRUCache_Release_def LRUCache_Release_def Unref_def Let_def list_update_same_conv
      split: option.splits if_splits)

lemma LRUCache_Erase_empty:
  "empty_table (table_m c) \<Longrightarrow> LRUCache_Erase key h (m, c) = Some (m, c)"
  by (simp add: LRUCache_Erase_def HandleTable_Remove_def FindPointer_empty slot_empty)

lemma zero_cache_Erase:
  assumes "zero_cache (snd s)" and "ShardedLRUCache_Erase Hash key s = Some s'"
  shows "s' = s"
  using assms all_empty_nth [OF _ Shard_less, of "snd s" "HashSlice Hash key"]
  by (auto simp: ShardedLRUCache_Erase_def Let_def LRUCache_Erase_empty zero_cache_def
      split: if_splits)

lemma reach0_zero_cache: "reach0 Hash s \<Longrightarrow> zero_cache (snd s)"
proof (induction rule: reach0.induct)
  case (reach0_new c)
  then show ?case by (simp add: zero_cache_new)
next
  case (reach0_Insert s key chg v del e s')
  then show ?case
    by (auto simp: zero_cache_Insert zero_cache_usage)
next
  case (reach0_Lookup s key r s')
  then show ?case
    by (simp add: Sharded_Lookup_empty zero_cache_def)
next
  case (reach0_Release s handle s')
  then show ?case by (simp add: zero_cache_Release)
next
  case (reach0_Erase s key s')
  then show ?case using zero_cache_Erase by blast
next
  case (reach0_NewId s)
  then show ?case by (simp add: NewId_def zero_cache_def all_empty_def)
qed

text \<open>
  Claim C10, as the code has it. In a cache built by \<open>NewLRUCache 0\<close>, an \<^verbatim>\<open>Insert\<close> returns
  a handle, a \<^verbatim>\<open>Lookup\<close> of the key right after it finds nothing, \<^verbatim>\<open>Value\<close> of the handle
  is the inserted value, and releasing the handle frees the Entry. The condition is that
  \<^verbatim>\<open>usage_\<close> of the key's shard plus the charge is not 0 modulo \<open>2 ^ 64\<close>, for this
  \<^verbatim>\<open>Insert\<close> and the earlier ones: \<^verbatim>\<open>usage_\<close> still counts every evicted Entry that a handle
  keeps alive, so it is the charge alone only when no such Entry is left.
\<close>

theorem capacity_0_Insert_unreachable:
  assumes "reach0 Hash s"
    and "usage_m (shard_m (snd s) ! unat (Shard (HashSlice Hash key))) + chg \<noteq> 0"
  shows "\<exists>e s'. ShardedLRUCache_Insert Hash key v chg del s = Some (e, s')
           \<and> ShardedLRUCache_Lookup Hash key s' = Some (None, s')
           \<and> Value e (fst s') = Some v
           \<and> (\<exists>s''. ShardedLRUCache_Release e s' = Some s'' \<and> Value e (fst s'') = None)"
proof -
  have z: "zero_cache (snd s)"
    using assms(1) by (rule reach0_zero_cache)
  let ?i = "unat (Shard (HashSlice Hash key))"
  let ?x = "\<lparr>value' = v, deleter = del, charge = chg, key_data = key, refs = 1,
             hash = HashSlice Hash key\<rparr>"
  let ?s' = "((fst s)\<lparr>heap := (heap (fst s))(brk (fst s) \<mapsto> ?x), brk := Suc (brk (fst s))\<rparr>,
              (snd s)\<lparr>shard_m := (shard_m (snd s))[?i :=
                 (shard_m (snd s) ! ?i)\<lparr>usage_m := usage_m (shard_m (snd s) ! ?i) + chg\<rparr>]\<rparr>)"
  have ins: "ShardedLRUCache_Insert Hash key v chg del s = Some (brk (fst s), ?s')"
    using zero_cache_Insert [OF z assms(2)] .
  have z': "zero_cache (snd ?s')"
    using zero_cache_usage [OF z] by simp
  then have look: "ShardedLRUCache_Lookup Hash key ?s' = Some (None, ?s')"
    by (simp add: Sharded_Lookup_empty zero_cache_def)
  have val: "Value (brk (fst s)) (fst ?s') = Some v"
    by (simp add: Value_def)
  have len: "length (shard_m (snd ?s')) = kNumShards"
    using z' by (simp add: zero_cache_def all_empty_def)
  have "heap (fst ?s') (brk (fst s)) = Some ?x" by simp
  from Sharded_Release_last [OF this _ len]
  have "\<exists>s''. ShardedLRUCache_Release (brk (fst s)) ?s' = Some s'' \<and> Value (brk (fst s)) (fst s'') = None"
    by (simp add: Value_def)
  with ins look val show ?thesis by blast
qed


text \<open>The first \<^verbatim>\<open>Insert\<close> into a new cache of capacity 0, with charge 5.\<close>

theorem capacity_0_Insert_unreachable_witness:
  "do { c \<leftarrow> NewLRUCache 0;
        (e, s') \<leftarrow> ShardedLRUCache_Insert (\<lambda>s seed. 0) ''k'' 11 5 0 (mem_empty, c);
        (r, s2) \<leftarrow> ShardedLRUCache_Lookup (\<lambda>s seed. 0) ''k'' s';
        Some (r, Value e (fst s2)) }
   = Some (None, Some 11)"
proof -
  obtain c where c: "NewLRUCache 0 = Some c" and u: "usage_m (shard_m c ! 0) = 0"
    by (simp add: NewLRUCache_eq replicate_16)
  have r: "reach0 (\<lambda>s seed. 0) (mem_empty, c)"
    using c by (rule reach0_new)
  have "usage_m (shard_m (snd (mem_empty, c)) ! unat (Shard (HashSlice (\<lambda>s seed. 0) ''k''))) + 5 \<noteq> 0"
    by (simp add: u HashSlice_def Shard_0)
  from capacity_0_Insert_unreachable [OF r this, of 11 0] show ?thesis
    by (auto simp: c)
qed

text \<open>
  Claim C10 as stated fails when \<^verbatim>\<open>usage_\<close> wraps: two Entries of charge \<open>2 ^ 63\<close>, the
  first still held by its handle. The second \<^verbatim>\<open>Insert\<close> leaves \<^verbatim>\<open>usage_\<close> = 0, nothing is
  evicted, and the \<^verbatim>\<open>Lookup\<close> finds the second Entry.
\<close>

theorem capacity_0_usage_wraps:
  "do { c \<leftarrow> NewLRUCache 0;
        (h1, s1) \<leftarrow> ShardedLRUCache_Insert (\<lambda>s seed. 0) ''a'' 11 9223372036854775808 0 (mem_empty, c);
        (h2, s2) \<leftarrow> ShardedLRUCache_Insert (\<lambda>s seed. 0) ''a'' 22 9223372036854775808 0 s1;
        (r, s3) \<leftarrow> ShardedLRUCache_Lookup (\<lambda>s seed. 0) ''a'' s2;
        Some (h2, r, Value h2 (fst s3)) }
   = Some (1, Some 1, Some 22)"
proof -
  have z: "zero_cache (snd (mem_empty, the (NewLRUCache 0)))"
    by (simp add: zero_cache_new NewLRUCache_eq)
  have "usage_m (shard_m (snd (mem_empty, the (NewLRUCache 0))) ! unat (Shard (HashSlice (\<lambda>s seed. 0) ''a'')))
          + 9223372036854775808 \<noteq> 0"
    by (simp add: NewLRUCache_eq HashSlice_def Shard_0 replicate_16)
  note s1 = zero_cache_Insert [OF z this, of 11 0]
  show ?thesis
    apply (simp add: NewLRUCache_eq)
    apply (simp add: s1 [simplified NewLRUCache_eq, simplified])
    apply (simp add: replicate_16 HashSlice_def Shard_0 mem_empty_def)
    apply (simp add: ShardedLRUCache_Insert_def HashSlice_def Shard_0 LRUCache_Insert_def
        LRU_Append_def HandleTable_Insert_def FindPointer_def slot_def Let_def)
    apply (subst evict.simps)
    apply (simp add: ShardedLRUCache_Lookup_def HashSlice_def Shard_0 LRUCache_Lookup_def
        HandleTable_Lookup_def FindPointer_def slot_def Let_def Value_def)
    done
qed

section \<open>One shard under any sequence of public operations\<close>

text \<open>
  The states of one shard of the given capacity, with a heap of its own, after any sequence
  of \<^verbatim>\<open>Insert\<close>, \<^verbatim>\<open>Lookup\<close>, \<^verbatim>\<open>Release\<close> and \<^verbatim>\<open>Erase\<close> that the code gives a result for.
\<close>

inductive reachable :: "size_t \<Rightarrow> mem \<times> LRUCache \<Rightarrow> bool" for capacity :: size_t where
  reachable_new: "LRUCache_new capacity = Some c \<Longrightarrow> reachable capacity (mem_empty, c)"
| reachable_Insert:
    "reachable capacity s \<Longrightarrow> LRUCache_Insert key h v chg del s = Some (e, s') \<Longrightarrow>
     reachable capacity s'"
| reachable_Lookup:
    "reachable capacity s \<Longrightarrow> LRUCache_Lookup key h s = Some (r, s') \<Longrightarrow>
     reachable capacity s'"
| reachable_Release:
    "reachable capacity s \<Longrightarrow> LRUCache_Release handle s = Some s' \<Longrightarrow>
     reachable capacity s'"
| reachable_Erase:
    "reachable capacity s \<Longrightarrow> LRUCache_Erase key h s = Some s' \<Longrightarrow>
     reachable capacity s'"

subsection \<open>The usage counter\<close>

text \<open>
  The charge behind a pointer (0 when nothing is allocated there), its sum over the
  entries the table reaches, and its sum over all entries that are allocated and not yet
  freed. The sums are taken in \<^verbatim>\<open>size_t\<close>, as \<^verbatim>\<open>usage_\<close> is.
\<close>

definition charge_of :: "(ptr \<Rightarrow> LRUHandle option) \<Rightarrow> ptr \<Rightarrow> size_t" where
  "charge_of hp p = (case hp p of None \<Rightarrow> 0 | Some x \<Rightarrow> charge x)"

definition table_charge :: "mem \<Rightarrow> HandleTable \<Rightarrow> size_t" where
  "table_charge m t = sum_list (map (charge_of (heap m)) (concat (list_m t)))"

definition live_charge :: "(ptr \<Rightarrow> LRUHandle option) \<Rightarrow> nat \<Rightarrow> size_t" where
  "live_charge hp n = sum_list (map (charge_of hp) [0..<n])"

definition heap_charge :: "mem \<Rightarrow> size_t" where
  "heap_charge m = live_charge (heap m) (brk m)"

definition usage_ok :: "mem \<times> LRUCache \<Rightarrow> bool" where
  "usage_ok s \<longleftrightarrow>
     usage_m (snd s) = heap_charge (fst s) \<and> (\<forall>p. brk (fst s) \<le> p \<longrightarrow> heap (fst s) p = None)"

lemma live_charge_sum: "live_charge hp n = (\<Sum>p<n. charge_of hp p)"
  by (simp add: live_charge_def interv_sum_list_conv_sum_set_nat atLeast0LessThan)

lemma sum_update:
  fixes f :: "nat \<Rightarrow> size_t"
  assumes "e < n"
  shows "(\<Sum>p<n. (f(e := y)) p) = (\<Sum>p<n. f p) - f e + y"
proof -
  have "(\<Sum>p<n. (f(e := y)) p) = (f(e := y)) e + (\<Sum>p\<in>{..<n} - {e}. (f(e := y)) p)"
    using assms by (intro sum.remove) simp_all
  also have "(\<Sum>p\<in>{..<n} - {e}. (f(e := y)) p) = (\<Sum>p\<in>{..<n} - {e}. f p)"
    by (intro sum.cong) simp_all
  also have "(\<Sum>p<n. f p) = f e + (\<Sum>p\<in>{..<n} - {e}. f p)"
    using assms by (intro sum.remove) simp_all
  then have "(\<Sum>p\<in>{..<n} - {e}. f p) = (\<Sum>p<n. f p) - f e"
    by simp
  finally show ?thesis by simp
qed

lemma charge_of_upd:
  "charge_of (hp(e := y)) = (charge_of hp)(e := case y of None \<Rightarrow> 0 | Some x \<Rightarrow> charge x)"
  by (auto simp: charge_of_def fun_eq_iff)

lemma live_charge_upd:
  "e < n \<Longrightarrow>
     live_charge (hp(e := y)) n =
       live_charge hp n - charge_of hp e + (case y of None \<Rightarrow> 0 | Some x \<Rightarrow> charge x)"
  by (simp only: live_charge_sum charge_of_upd sum_update)

lemma live_charge_Suc: "live_charge hp (Suc n) = live_charge hp n + charge_of hp n"
  by (simp add: live_charge_def)

lemma live_charge_beyond: "n \<le> e \<Longrightarrow> live_charge (hp(e := y)) n = live_charge hp n"
  by (simp add: live_charge_sum charge_of_def)

lemma usage_ok_Unref:
  assumes "usage_ok s" and "Unref e s = Some s'"
  shows "usage_ok s'"
proof -
  obtain x where x: "heap (fst s) e = Some x"
    using assms(2) by (auto simp: Unref_def split: option.splits)
  have e: "e < brk (fst s)"
    using assms(1) x by (metis usage_ok_def not_le option.distinct(1))
  have c: "charge_of (heap (fst s)) e = charge x"
    by (simp add: charge_of_def x)
  show ?thesis
    using assms x e c
    by (auto simp: Unref_def Let_def usage_ok_def heap_charge_def live_charge_upd
        split: if_splits)
qed

lemma usage_ok_table [simp]: "usage_ok (m, c\<lparr>table_m := t\<rparr>) = usage_ok (m, c)"
  by (simp add: usage_ok_def)

lemma usage_ok_LRU_Remove [simp]: "usage_ok (m, LRU_Remove e c) = usage_ok (m, c)"
  by (simp add: usage_ok_def LRU_Remove_def)

lemma usage_ok_LRU_Append [simp]: "usage_ok (m, LRU_Append e c) = usage_ok (m, c)"
  by (simp add: usage_ok_def LRU_Append_def)

text \<open>One turn of the eviction loop, and a rule for what every turn preserves.\<close>

lemma table_LRU_Remove [simp]: "table_m (LRU_Remove e c) = table_m c"
  by (simp add: LRU_Remove_def)

lemma evict_cases:
  assumes "evict s = Some s'"
  obtains (stop) "\<not> (capacity_m (snd s) < usage_m (snd s) \<and> lru_m (snd s) \<noteq> [])" and "s' = s"
  | (step) x r s1 where "capacity_m (snd s) < usage_m (snd s)" and "lru_m (snd s) \<noteq> []"
      and "heap (fst s) (hd (lru_m (snd s))) = Some x"
      and "HandleTable_Remove (heap (fst s)) (table_m (snd s)) (key_data x) (hash x) = Some r"
      and "Unref (hd (lru_m (snd s)))
             (fst s, (LRU_Remove (hd (lru_m (snd s))) (snd s))\<lparr>table_m := snd r\<rparr>) = Some s1"
      and "evict s1 = Some s'"
proof (cases "capacity_m (snd s) < usage_m (snd s) \<and> lru_m (snd s) \<noteq> []")
  case False
  with assms have "s' = s"
    by (simp add: evict.simps [of s])
  with False show ?thesis by (rule stop)
next
  case True
  with assms obtain x where x: "heap (fst s) (hd (lru_m (snd s))) = Some x"
    by (simp add: evict.simps [of s] Let_def split: option.splits)
  with assms True obtain r where
    r: "HandleTable_Remove (heap (fst s)) (table_m (snd s)) (key_data x) (hash x) = Some r"
    by (simp add: evict.simps [of s] Let_def split: option.splits)
  with assms True x obtain s1 where
    u: "Unref (hd (lru_m (snd s)))
          (fst s, (LRU_Remove (hd (lru_m (snd s))) (snd s))\<lparr>table_m := snd r\<rparr>) = Some s1"
    by (simp add: evict.simps [of s] Let_def split: option.splits)
  with assms True x r have "evict s1 = Some s'"
    by (simp add: evict.simps [of s] Let_def)
  with True x r u show ?thesis by (intro step) simp_all
qed

lemma evict_preserves:
  assumes "evict s = Some s'" and "P s"
    and step: "\<And>s x r s1. P s \<Longrightarrow> capacity_m (snd s) < usage_m (snd s) \<Longrightarrow>
        lru_m (snd s) \<noteq> [] \<Longrightarrow> heap (fst s) (hd (lru_m (snd s))) = Some x \<Longrightarrow>
        HandleTable_Remove (heap (fst s)) (table_m (snd s)) (key_data x) (hash x) = Some r \<Longrightarrow>
        Unref (hd (lru_m (snd s)))
          (fst s, (LRU_Remove (hd (lru_m (snd s))) (snd s))\<lparr>table_m := snd r\<rparr>) = Some s1 \<Longrightarrow>
        P s1"
  shows "P s'"
  using assms(1,2)
proof (induction s rule: evict.induct)
  case (1 s)
  from "1.prems"(1) show ?case
  proof (cases rule: evict_cases)
    case stop
    with "1.prems" show ?thesis by simp
  next
    case (step x r s1)
    have "P s1"
      using step(1-5) "1.prems"(2) by (intro assms(3) [of s x r s1])
    moreover have "capacity_m (snd s) < usage_m (snd s) \<and> lru_m (snd s) \<noteq> []"
      using step by simp
    ultimately show ?thesis
      using "1.IH" [OF _ refl refl step(3) _ step(5)] step(4,6) by simp
  qed
qed

lemma usage_ok_evict:
  assumes "usage_ok s" and "evict s = Some s'"
  shows "usage_ok s'"
proof (rule evict_preserves [OF assms(2), where P = usage_ok])
  show "usage_ok s" by fact
next
  fix s :: "mem \<times> LRUCache" and r :: "ptr option \<times> HandleTable" and s1
  assume "usage_ok s"
    and "Unref (hd (lru_m (snd s)))
           (fst s, (LRU_Remove (hd (lru_m (snd s))) (snd s))\<lparr>table_m := snd r\<rparr>) = Some s1"
  then show "usage_ok s1"
    by (intro usage_ok_Unref [where s' = s1]) simp_all
qed

lemma LRUCache_Insert_cases:
  fixes s :: "mem \<times> LRUCache"
  defines "m1 \<equiv> \<lambda>key h v chg del. (fst s)\<lparr>heap := (heap (fst s))(brk (fst s) \<mapsto>
               \<lparr>value' = v, deleter = del, charge = chg, key_data = key, refs = 2, hash = h\<rparr>),
             brk := Suc (brk (fst s))\<rparr>"
    and "c2 \<equiv> \<lambda>chg. (LRU_Append (brk (fst s)) (snd s))\<lparr>usage_m := usage_m (snd s) + chg\<rparr>"
  assumes "LRUCache_Insert key h v chg del s = Some (e, s')"
  obtains (fresh) t s3 where "e = brk (fst s)"
      and "HandleTable_Insert (heap (m1 key h v chg del)) (table_m (snd s)) e = Some (None, t)"
      and "s3 = (m1 key h v chg del, (c2 chg)\<lparr>table_m := t\<rparr>)"
      and "evict s3 = Some s'"
  | (replace) old t s3 where "e = brk (fst s)"
      and "HandleTable_Insert (heap (m1 key h v chg del)) (table_m (snd s)) e = Some (Some old, t)"
      and "Unref old (m1 key h v chg del, LRU_Remove old ((c2 chg)\<lparr>table_m := t\<rparr>)) = Some s3"
      and "evict s3 = Some s'"
  using assms(3) unfolding m1_def c2_def LRUCache_Insert_def Let_def
  by (fastforce simp: LRU_Append_def split: option.splits)

lemma usage_ok_Insert:
  assumes "usage_ok s" and "LRUCache_Insert key h v chg del s = Some (e, s')"
  shows "usage_ok s'"
proof -
  let ?m1 = "(fst s)\<lparr>heap := (heap (fst s))(brk (fst s) \<mapsto>
               \<lparr>value' = v, deleter = del, charge = chg, key_data = key, refs = 2, hash = h\<rparr>),
             brk := Suc (brk (fst s))\<rparr>"
  let ?c2 = "(LRU_Append (brk (fst s)) (snd s))\<lparr>usage_m := usage_m (snd s) + chg\<rparr>"
  have ok: "usage_ok (?m1, ?c2)"
    using assms(1)
    by (simp add: usage_ok_def heap_charge_def live_charge_Suc live_charge_beyond LRU_Append_def
        charge_of_def)
  from assms(2) have "\<exists>s3. usage_ok s3 \<and> evict s3 = Some s'"
  proof (cases rule: LRUCache_Insert_cases)
    case (fresh t s3)
    from ok fresh(3) have "usage_ok s3" by simp
    with fresh show ?thesis by blast
  next
    case (replace old t s3)
    from usage_ok_Unref [OF _ replace(3)] ok have "usage_ok s3" by simp
    with replace show ?thesis by blast
  qed
  then show ?thesis
    by (blast intro: usage_ok_evict)
qed

lemma usage_ok_Lookup:
  assumes "usage_ok s" and "LRUCache_Lookup key h s = Some (r, s')"
  shows "usage_ok s'"
proof -
  have "live_charge ((heap (fst s))(e \<mapsto> x\<lparr>refs := refs x + 1\<rparr>)) (brk (fst s))
          = live_charge (heap (fst s)) (brk (fst s))"
    if "heap (fst s) e = Some x" for e x
  proof (cases "e < brk (fst s)")
    case True
    then show ?thesis by (simp add: live_charge_upd charge_of_def that)
  next
    case False
    then show ?thesis by (simp add: live_charge_beyond)
  qed
  then show ?thesis
    using assms
    by (auto simp: LRUCache_Lookup_def usage_ok_def heap_charge_def LRU_Append_def LRU_Remove_def
        split: option.splits)
qed

lemma usage_ok_Erase:
  assumes "usage_ok s" and "LRUCache_Erase key h s = Some s'"
  shows "usage_ok s'"
proof -
  obtain r where r: "HandleTable_Remove (heap (fst s)) (table_m (snd s)) key h = Some r"
    using assms(2) by (auto simp: LRUCache_Erase_def split: option.splits)
  show ?thesis
  proof (cases "fst r")
    case None
    with assms r show ?thesis by (auto simp: LRUCache_Erase_def)
  next
    case (Some e)
    with assms(2) r have "Unref e (fst s, LRU_Remove e ((snd s)\<lparr>table_m := snd r\<rparr>)) = Some s'"
      by (simp add: LRUCache_Erase_def)
    from usage_ok_Unref [OF _ this] assms(1) show ?thesis by simp
  qed
qed

lemma usage_ok_new: "LRUCache_new capacity = Some c \<Longrightarrow> usage_ok (mem_empty, c)"
  by (auto simp: LRUCache_new_eq usage_ok_def heap_charge_def live_charge_def mem_empty_def)

text \<open>
  Claim C1, as the code has it. In every state a shard reaches through public operations,
  \<^verbatim>\<open>usage_\<close> is the sum (in \<^verbatim>\<open>size_t\<close>) of the charges of all Entries that are not yet freed:
  those the table reaches and those that were evicted, erased or replaced while a handle
  still holds them. \<^verbatim>\<open>Unref\<close> subtracts the charge only when it frees the Entry.
\<close>

theorem usage_is_charge_of_live_entries:
  assumes "reachable capacity s"
  shows "usage_m (snd s) = heap_charge (fst s)"
proof -
  have "usage_ok s"
    using assms
  proof (induction rule: reachable.induct)
    case (reachable_new c)
    then show ?case by (rule usage_ok_new)
  next
    case (reachable_Insert s key h v chg del e s')
    then show ?case by (auto intro: usage_ok_Insert)
  next
    case (reachable_Lookup s key h r s')
    then show ?case by (auto intro: usage_ok_Lookup)
  next
    case (reachable_Release s handle s')
    then show ?case by (auto simp: LRUCache_Release_def intro: usage_ok_Unref)
  next
    case (reachable_Erase s key h s')
    then show ?case by (auto intro: usage_ok_Erase)
  qed
  then show ?thesis by (simp add: usage_ok_def)
qed


text \<open>
  A small run on a new shard of capacity 100: insert \<^verbatim>\<open>"k"\<close> with charge 10, erase it while
  the handle of the \<^verbatim>\<open>Insert\<close> is held, release the handle.
\<close>

lemmas shard_eval =
  LRUCache_new_eq mem_empty_def LRUCache_Insert_def LRUCache_Lookup_def LRUCache_Erase_def
  LRUCache_Release_def Unref_def LRU_Append_def LRU_Remove_def HandleTable_Insert_def
  HandleTable_Remove_def HandleTable_Lookup_def FindPointer_def slot_def Let_def

lemma scenario_insert_erase:
  "LRUCache_Insert ''k'' 7 11 10 0
     (mem_empty, \<lparr>capacity_m = 100, usage_m = 0, lru_m = [],
                  table_m = \<lparr>length_m = 4, elems_m = 0, list_m = [[], [], [], []]\<rparr>\<rparr>)
   = Some (0,
       \<lparr>heap = (\<lambda>_. None)(0 \<mapsto> \<lparr>value' = 11, deleter = 0, charge = 10, key_data = ''k'',
                                  refs = 2, hash = 7\<rparr>), brk = Suc 0, calls = []\<rparr>,
       \<lparr>capacity_m = 100, usage_m = 10, lru_m = [0],
        table_m = \<lparr>length_m = 4, elems_m = 1, list_m = [[], [], [], [0]]\<rparr>\<rparr>)"
  by (simp add: shard_eval evict.simps)

lemma scenario_erase:
  "LRUCache_Erase ''k'' 7
     (\<lparr>heap = (\<lambda>_. None)(0 \<mapsto> \<lparr>value' = 11, deleter = 0, charge = 10, key_data = ''k'',
                                  refs = 2, hash = 7\<rparr>), brk = Suc 0, calls = []\<rparr>,
       \<lparr>capacity_m = 100, usage_m = 10, lru_m = [0],
        table_m = \<lparr>length_m = 4, elems_m = 1, list_m = [[], [], [], [0]]\<rparr>\<rparr>)
   = Some (\<lparr>heap = (\<lambda>_. None)(0 \<mapsto> \<lparr>value' = 11, deleter = 0, charge = 10, key_data = ''k'',
                                  refs = 1, hash = 7\<rparr>), brk = Suc 0, calls = []\<rparr>,
       \<lparr>capacity_m = 100, usage_m = 10, lru_m = [],
        table_m = \<lparr>length_m = 4, elems_m = 0, list_m = [[], [], [], []]\<rparr>\<rparr>)"
  by (simp add: shard_eval)

lemma scenario_release:
  "LRUCache_Release 0
     (\<lparr>heap = (\<lambda>_. None)(0 \<mapsto> \<lparr>value' = 11, deleter = 0, charge = 10, key_data = ''k'',
                                  refs = 1, hash = 7\<rparr>), brk = Suc 0, calls = []\<rparr>,
       \<lparr>capacity_m = 100, usage_m = 10, lru_m = [],
        table_m = \<lparr>length_m = 4, elems_m = 0, list_m = [[], [], [], []]\<rparr>\<rparr>)
   = Some (\<lparr>heap = (\<lambda>_. None), brk = Suc 0, calls = [(0, 0, ''k'', 11)]\<rparr>,
       \<lparr>capacity_m = 100, usage_m = 0, lru_m = [],
        table_m = \<lparr>length_m = 4, elems_m = 0, list_m = [[], [], [], []]\<rparr>\<rparr>)"
  by (simp add: shard_eval)

text \<open>After the \<^verbatim>\<open>Insert\<close> and the \<^verbatim>\<open>Erase\<close> of that run.\<close>

theorem usage_is_charge_of_live_entries_witness:
  "do { c \<leftarrow> LRUCache_new 100;
        (e, s1) \<leftarrow> LRUCache_Insert ''k'' 7 11 10 0 (mem_empty, c);
        s2 \<leftarrow> LRUCache_Erase ''k'' 7 s1;
        Some (reachable 100 s2, usage_m (snd s2), heap_charge (fst s2)) }
   = Some (True, 10, 10)"
proof -
  let ?c = "\<lparr>capacity_m = 100, usage_m = 0, lru_m = [],
             table_m = \<lparr>length_m = 4, elems_m = 0, list_m = [[], [], [], []]\<rparr>\<rparr>"
  let ?s1 = "(\<lparr>heap = (\<lambda>_. None)(0 \<mapsto> \<lparr>value' = 11, deleter = 0, charge = 10, key_data = ''k'',
                                  refs = 2, hash = 7\<rparr>), brk = Suc 0, calls = []\<rparr>,
       \<lparr>capacity_m = 100, usage_m = 10, lru_m = [0],
        table_m = \<lparr>length_m = 4, elems_m = 1, list_m = [[], [], [], [0]]\<rparr>\<rparr>)"
  let ?s2 = "(\<lparr>heap = (\<lambda>_. None)(0 \<mapsto> \<lparr>value' = 11, deleter = 0, charge = 10, key_data = ''k'',
                                  refs = 1, hash = 7\<rparr>), brk = Suc 0, calls = []\<rparr>,
       \<lparr>capacity_m = 100, usage_m = 10, lru_m = [],
        table_m = \<lparr>length_m = 4, elems_m = 0, list_m = [[], [], [], []]\<rparr>\<rparr>)"
  have "reachable 100 (mem_empty, ?c)"
    by (rule reachable_new) (simp add: LRUCache_new_eq)
  then have "reachable 100 ?s1"
    by (rule reachable_Insert) (rule scenario_insert_erase)
  then have r: "reachable 100 ?s2"
    by (rule reachable_Erase) (rule scenario_erase)
  from usage_is_charge_of_live_entries [OF r] show ?thesis
    by (simp add: LRUCache_new_eq scenario_insert_erase scenario_erase r)
qed

text \<open>
  Claim C1 as stated fails in that state: the table reaches no Entry, so the charges it
  reaches sum to 0, while \<^verbatim>\<open>usage_\<close> is 10.
\<close>

theorem usage_counts_erased_entry:
  "do { c \<leftarrow> LRUCache_new 100;
        (e, s1) \<leftarrow> LRUCache_Insert ''k'' 7 11 10 0 (mem_empty, c);
        s2 \<leftarrow> LRUCache_Erase ''k'' 7 s1;
        Some (usage_m (snd s2), table_charge (fst s2) (table_m (snd s2))) }
   = Some (10, 0)"
  by (simp add: LRUCache_new_eq scenario_insert_erase scenario_erase table_charge_def)


subsection \<open>Release\<close>

text \<open>
  Claim C3, as the code has it. \<^verbatim>\<open>Release\<close> of a handle whose Entry is allocated with a
  positive reference count returns; it decrements the count and, when the count reaches
  0, logs the deleter call and frees the Entry. The table, the ring, the capacity and
  every other Entry are unchanged. \<^verbatim>\<open>usage_\<close> is unchanged when the Entry is not freed, and
  is reduced by the Entry's charge when it is.
\<close>

theorem Release_frame:
  assumes "heap (fst s) handle = Some x" and "0 < refs x"
  shows "\<exists>s'. LRUCache_Release handle s = Some s'
           \<and> table_m (snd s') = table_m (snd s)
           \<and> lru_m (snd s') = lru_m (snd s)
           \<and> capacity_m (snd s') = capacity_m (snd s)
           \<and> brk (fst s') = brk (fst s)
           \<and> heap (fst s') =
               (heap (fst s))(handle := if refs x = 1 then None else Some (x\<lparr>refs := refs x - 1\<rparr>))
           \<and> calls (fst s') =
               calls (fst s) @
                 (if refs x = 1 then [(handle, deleter x, key_data x, value' x)] else [])
           \<and> usage_m (snd s') =
               (if refs x = 1 then usage_m (snd s) - charge x else usage_m (snd s))"
  using assms by (simp add: LRUCache_Release_def Unref_def Let_def)

text \<open>Releasing the handle of an \<^verbatim>\<open>Insert\<close> while the Entry is in the table.\<close>

theorem Release_frame_witness:
  "do { c \<leftarrow> LRUCache_new 100;
        (e, s1) \<leftarrow> LRUCache_Insert ''k'' 7 11 10 0 (mem_empty, c);
        s2 \<leftarrow> LRUCache_Release e s1;
        Some (table_m (snd s2) = table_m (snd s1), lru_m (snd s2) = lru_m (snd s1),
              usage_m (snd s2) = usage_m (snd s1), map_option refs (heap (fst s2) e),
              calls (fst s2)) }
   = Some (True, True, True, Some 1, [])"
proof -
  let ?x = "\<lparr>value' = 11, deleter = 0, charge = 10, key_data = ''k'', refs = 2, hash = 7\<rparr>"
  let ?s1 = "(\<lparr>heap = (\<lambda>_. None)(0 \<mapsto> ?x), brk = Suc 0, calls = []\<rparr>,
       \<lparr>capacity_m = 100, usage_m = 10, lru_m = [0],
        table_m = \<lparr>length_m = 4, elems_m = 1, list_m = [[], [], [], [0]]\<rparr>\<rparr>)"
  have "heap (fst ?s1) 0 = Some ?x" and "0 < refs ?x"
    by simp_all
  from Release_frame [OF this] show ?thesis
    by (auto simp: LRUCache_new_eq scenario_insert_erase)
qed

text \<open>
  Claim C3 as stated fails where the release frees the Entry: the usage counter goes from
  10 to 0.
\<close>

theorem Release_changes_usage:
  "do { c \<leftarrow> LRUCache_new 100;
        (e, s1) \<leftarrow> LRUCache_Insert ''k'' 7 11 10 0 (mem_empty, c);
        s2 \<leftarrow> LRUCache_Erase ''k'' 7 s1;
        s3 \<leftarrow> LRUCache_Release e s2;
        Some (usage_m (snd s2), usage_m (snd s3)) }
   = Some (10, 0)"
  by (simp add: LRUCache_new_eq scenario_insert_erase scenario_erase scenario_release)

end
